theory Spec2Isabelle
  imports Main "HOL-Library.Sublist" "HOL-Library.AList" "HOL-Library.Word"
begin

section \<open>JavaScript string primitives used by the sources\<close>

text \<open>
  Strings are sequences of code units, modelled as \<^typ>\<open>string\<close>; a \<^typ>\<open>char\<close> is a
  code unit below 256. The operations below are the ones the two library files call: \<open>trim\<close>, \<open>endsWith\<close>, \<open>slice(0, -1)\<close>
  (\<^const>\<open>butlast\<close>), \<open>includes\<close>, \<open>indexOf\<close> (\<open>-1\<close> is \<^const>\<open>None\<close>),
  \<open>slice(n)\<close> (\<^const>\<open>drop\<close>), \<open>split("/")\<close>, \<open>join("/")\<close>, \<open>pop()\<close> on the
  result of a split, and \<open>a || b\<close> on strings.
\<close>

definition isWhiteSpace :: "char \<Rightarrow> bool" where
  \<comment> \<open>ECMAScript WhiteSpace and LineTerminator code units below 256:
      TAB, LF, VT, FF, CR, SP, NBSP.\<close>
  "isWhiteSpace c \<longleftrightarrow>
     c = CHR 0x09 \<or> c = CHR 0x0A \<or> c = CHR 0x0B \<or> c = CHR 0x0C \<or> c = CHR 0x0D \<or>
     c = CHR 0x20 \<or> c = CHR 0xA0"

definition trim :: "string \<Rightarrow> string" where
  "trim s = rev (dropWhile isWhiteSpace (rev (dropWhile isWhiteSpace s)))"

definition endsWith :: "string \<Rightarrow> string \<Rightarrow> bool" where
  "endsWith s t \<longleftrightarrow> suffix t s"

fun indexOf :: "string \<Rightarrow> string \<Rightarrow> nat option" where
  "indexOf [] pat = (if pat = [] then Some 0 else None)"
| "indexOf (c # cs) pat =
     (if prefix pat (c # cs) then Some 0 else map_option Suc (indexOf cs pat))"

definition includes_str :: "string \<Rightarrow> string \<Rightarrow> bool" where
  "includes_str s pat \<longleftrightarrow> indexOf s pat \<noteq> None"

fun split_str :: "string \<Rightarrow> string list" where
  \<comment> \<open>\<open>s.split("/")\<close>; the split of the empty string is \<open>[""]\<close>.\<close>
  "split_str [] = [[]]"
| "split_str (c # cs) =
     (if c = CHR ''/'' then [] # split_str cs
      else (c # hd (split_str cs)) # tl (split_str cs))"

fun join_str :: "string list \<Rightarrow> string" where
  \<comment> \<open>\<open>parts.join("/")\<close>\<close>
  "join_str [] = []"
| "join_str [p] = p"
| "join_str (p # q # ps) = p @ ''/'' @ join_str (q # ps)"

definition or_str :: "string \<Rightarrow> string \<Rightarrow> string" where
  \<comment> \<open>\<open>a || b\<close>: the empty string is the only falsy string.\<close>
  "or_str a b = (if a = [] then b else a)"

definition pop_split :: "string \<Rightarrow> string" where
  \<comment> \<open>\<open>path.split("/").pop()\<close>; the split is never empty.\<close>
  "pop_split p = last (split_str p)"

section \<open>github-parser: \<open>parseGitHubUrl\<close>\<close>

datatype parsed_type = File | Directory

record ParsedGitHubUrl =
  p_owner :: string
  p_repo :: string
  p_branch :: string
  p_path :: string
  p_type :: parsed_type

definition githubPrefix :: string where
  "githubPrefix = ''github.com/''"

definition cleanUrl :: "string \<Rightarrow> string" where
  \<comment> \<open>lines 19-22: trim, then drop one trailing slash\<close>
  "cleanUrl url = (let u = trim url in if endsWith u ''/'' then butlast u else u)"

definition pathParts :: "string \<Rightarrow> string list option" where
  \<comment> \<open>lines 19-36: the segment list after the first \<open>github.com/\<close>, or the early \<open>null\<close>\<close>
  "pathParts url =
     (let u = cleanUrl url in
      if \<not> includes_str u ''github.com'' then None
      else case indexOf u githubPrefix of
             None \<Rightarrow> None
           | Some startIndex \<Rightarrow> Some (split_str (drop (startIndex + length githubPrefix) u)))"

text \<open>
  The result \<open>null\<close> is \<^const>\<open>None\<close>. No operation in the body of the \<open>try\<close> throws on a
  string, so the \<open>catch\<close> of lines 68-71 has no case here.
\<close>

definition parseGitHubUrl :: "string \<Rightarrow> ParsedGitHubUrl option" where
  "parseGitHubUrl url =
     (case pathParts url of
        None \<Rightarrow> None
      | Some parts \<Rightarrow>
          if length parts < 2 then None
          else if length parts > 3 \<and> (parts ! 2 = ''tree'' \<or> parts ! 2 = ''blob'') then
            Some \<lparr> p_owner = parts ! 0, p_repo = parts ! 1, p_branch = parts ! 3,
                   p_path = (if length parts > 4 then join_str (drop 4 parts) else ''''),
                   p_type = (if parts ! 2 = ''tree'' then Directory else File) \<rparr>
          else
            Some \<lparr> p_owner = parts ! 0, p_repo = parts ! 1, p_branch = ''main'',
                   p_path = '''', p_type = Directory \<rparr>)"

definition segment :: "string \<Rightarrow> bool" where
  \<comment> \<open>a well-formed URL path segment \<open>{o}\<close>, \<open>{r}\<close>, \<open>{b}\<close>, \<open>{p}\<close>:
      non-empty, without separator and without white space\<close>
  "segment s \<longleftrightarrow> s \<noteq> [] \<and> list_all (\<lambda>c. c \<noteq> CHR ''/'' \<and> \<not> isWhiteSpace c) s"

section \<open>github-services: the download job\<close>

subsection \<open>API data\<close>

datatype content_type = Type_file | Type_dir | Type_symlink | Type_submodule

record content_links =
  l_self :: string
  l_git :: string
  l_html :: string

record GitHubContent =
  c_name :: string
  c_path :: string
  c_sha :: string
  c_size :: nat
  c_url :: string
  c_html_url :: string
  c_git_url :: string
  c_download_url :: "string option"
  c_type :: content_type
  c_links :: content_links

record blob_data =
  b_content :: string
  b_encoding :: string

text \<open>
  What a rejected request throws: an Axios error, with the status of the response when there
  was one (\<open>error.response?.status\<close>), or any other error. Both carry a message.
\<close>

datatype error = AxiosError "nat option" string | Error string

text \<open>
  The REST API behind \<open>axios.get\<close>, as the mock of a test would supply it: for each of the four
  call sites, what the request to a URL resolves to (\<^const>\<open>Inr\<close>) or is rejected with
  (\<^const>\<open>Inl\<close>). The result types are the type arguments of the call sites.
\<close>

record api =
  getListing :: "string \<Rightarrow> error + GitHubContent list"
  getFileInfo :: "string \<Rightarrow> error + GitHubContent"
  getBlob :: "string \<Rightarrow> error + blob_data"
  getRaw :: "string \<Rightarrow> error + 8 word list"

definition contentsUrl :: "string \<Rightarrow> string \<Rightarrow> string \<Rightarrow> string \<Rightarrow> string" where
  "contentsUrl owner repo path branch =
     ''https://api.github.com/repos/'' @ owner @ ''/'' @ repo @ ''/contents/'' @ path
       @ ''?ref='' @ branch"

definition blobUrl :: "string \<Rightarrow> string \<Rightarrow> string \<Rightarrow> string" where
  "blobUrl owner repo sha =
     ''https://api.github.com/repos/'' @ owner @ ''/'' @ repo @ ''/git/blobs/'' @ sha"

definition truthy :: "string option \<Rightarrow> string option" where
  \<comment> \<open>\<open>!fileInfo.download_url\<close> holds for \<open>null\<close> and for the empty string\<close>
  "truthy u = (case u of None \<Rightarrow> None | Some s \<Rightarrow> if s = [] then None else Some s)"

fun is404 :: "error \<Rightarrow> bool" where
  \<comment> \<open>\<open>axios.isAxiosError(error) && error.response?.status === 404\<close>\<close>
  "is404 (AxiosError status msg) = (status = Some 404)"
| "is404 (Error msg) = False"

subsection \<open>The archive\<close>

text \<open>
  Modelled from the spec: the archive library (JSZip) is not among the sources. The archive
  is the table of entries of the spec's Archive Writer, one payload per ZIP-relative path, in
  insertion order: \<open>zip.file(name, data)\<close> adds the entry or replaces the one at \<open>name\<close>;
  \<open>zip.folder(name)\<close> adds an empty-directory marker unless \<open>name\<close> is empty or already has
  an entry. Payloads are kept as handed over: raw bytes, text to be decoded from base64
  (\<open>{base64: true}\<close>), plain text, or the directory marker. Parent directories that the
  library derives from a file's path are not entries of the table.
\<close>

datatype payload = Binary "8 word list" | Base64 string | Text string | EmptyDirectoryMarker

type_synonym archive = "(string \<times> payload) list"

definition zip_file :: "string \<Rightarrow> payload \<Rightarrow> archive \<Rightarrow> archive" where
  \<comment> \<open>Modelled from the spec: \<open>zip.file(name, data)\<close> of the archive library, the Archive
      Writer's \<open>addFile\<close>; an entry already at \<open>name\<close> is replaced in place.\<close>
  "zip_file name data z = AList.update name data z"

definition zip_folder :: "string \<Rightarrow> archive \<Rightarrow> archive" where
  \<comment> \<open>Modelled from the spec: \<open>zip.folder(name)\<close> of the archive library, the Archive
      Writer's \<open>addEmptyDirectory\<close>; nothing is added for the empty name or a name in use.\<close>
  "zip_folder name z =
     (if name = [] \<or> map_of z name \<noteq> None then z else z @ [(name, EmptyDirectoryMarker)])"

definition placeholder :: payload where
  "placeholder =
     Text ''Error: Could not download this file. It might be too large or inaccessible.''"

subsection \<open>\<open>addFileToZip\<close>\<close>

definition addFileToZip_try ::
  "api \<Rightarrow> string \<Rightarrow> string \<Rightarrow> string \<Rightarrow> string \<Rightarrow> string \<Rightarrow> archive \<Rightarrow> error + archive" where
  \<comment> \<open>the body of the \<open>try\<close> block, lines 134-159\<close>
  "addFileToZip_try api owner repo branch path zipPath z =
     (case getFileInfo api (contentsUrl owner repo path branch) of
        Inl err \<Rightarrow> Inl err
      | Inr fileInfo \<Rightarrow>
          (case truthy (c_download_url fileInfo) of
             None \<Rightarrow>
               (case getBlob api (blobUrl owner repo (c_sha fileInfo)) of
                  Inl err \<Rightarrow> Inl err
                | Inr blobData \<Rightarrow>
                    if b_encoding blobData = ''base64'' then
                      Inr (zip_file (or_str zipPath (c_name fileInfo))
                             (Base64 (b_content blobData)) z)
                    else Inl (Error (''Unsupported encoding: '' @ b_encoding blobData)))
           | Some download_url \<Rightarrow>
               (case getRaw api download_url of
                  Inl err \<Rightarrow> Inl err
                | Inr fileData \<Rightarrow>
                    Inr (zip_file (or_str zipPath (c_name fileInfo)) (Binary fileData) z))))"

definition addFileToZip ::
  "api \<Rightarrow> string \<Rightarrow> string \<Rightarrow> string \<Rightarrow> string \<Rightarrow> string \<Rightarrow> archive \<Rightarrow> archive" where
  \<comment> \<open>the \<open>catch\<close> swallows every error and writes the placeholder, lines 160-167\<close>
  "addFileToZip api owner repo branch path zipPath z =
     (case addFileToZip_try api owner repo branch path zipPath z of
        Inr z' \<Rightarrow> z'
      | Inl err \<Rightarrow>
          zip_file (or_str zipPath (or_str (pop_split path) ''unknown-file'')) placeholder z)"

subsection \<open>\<open>fetchDirectoryContents\<close>\<close>

record job_state =
  st_zip :: archive
  st_progress :: "(nat \<times> string) list"

definition onProgress :: "nat \<Rightarrow> string \<Rightarrow> job_state \<Rightarrow> job_state" where
  \<comment> \<open>the callback's calls, recorded in the order they are made\<close>
  "onProgress progress message st = st\<lparr>st_progress := st_progress st @ [(progress, message)]\<rparr>"

definition itemZipPath :: "string \<Rightarrow> GitHubContent \<Rightarrow> string" where
  "itemZipPath zipPath item =
     (if zipPath \<noteq> [] then zipPath @ ''/'' @ c_name item else c_name item)"

definition progressPercent :: "nat \<Rightarrow> nat \<Rightarrow> nat" where
  \<comment> \<open>\<open>30 + Math.floor((i / contents.length) * 40)\<close>, in exact arithmetic\<close>
  "progressPercent i n = 30 + (i * 40) div n"

type_synonym walk_result = "(error option \<times> job_state) option"

text \<open>
  A call either returns (\<open>Some (None, st)\<close>), throws (\<open>Some (Some error, st)\<close>, with the
  state as mutated up to the throw), or does not come back within the recursion depth allowed
  (\<^const>\<open>None\<close>). The loop of lines 91-110 runs over the remaining items with the index
  \<open>i\<close> of the first of them and \<open>n = contents.length\<close>; \<open>recurse\<close> is the recursive call
  of line 105.
\<close>

fun forLoop ::
  "(string \<Rightarrow> string \<Rightarrow> job_state \<Rightarrow> walk_result) \<Rightarrow> api \<Rightarrow> string \<Rightarrow> string \<Rightarrow> string \<Rightarrow>
   string \<Rightarrow> GitHubContent list \<Rightarrow> nat \<Rightarrow> nat \<Rightarrow> job_state \<Rightarrow> walk_result" where
  "forLoop recurse api owner repo branch zipPath [] i n st = Some (None, st)"
| "forLoop recurse api owner repo branch zipPath (item # rest) i n st =
     (if c_type item = Type_dir then
        (case recurse (c_path item) (itemZipPath zipPath item)
                ((onProgress (progressPercent i n) (''Processing '' @ c_path item @ ''...'') st)
                   \<lparr>st_zip := zip_folder (itemZipPath zipPath item) (st_zip st)\<rparr>) of
           None \<Rightarrow> None
         | Some (Some err, st') \<Rightarrow> Some (Some err, st')
         | Some (None, st') \<Rightarrow> forLoop recurse api owner repo branch zipPath rest (Suc i) n st')
      else if c_type item = Type_file then
        forLoop recurse api owner repo branch zipPath rest (Suc i) n
          ((onProgress (progressPercent i n) (''Processing '' @ c_path item @ ''...'') st)
             \<lparr>st_zip := addFileToZip api owner repo branch (c_path item)
                           (itemZipPath zipPath item) (st_zip st)\<rparr>)
      else
        forLoop recurse api owner repo branch zipPath rest (Suc i) n
          (onProgress (progressPercent i n) (''Processing '' @ c_path item @ ''...'') st))"

definition catchListing :: "error \<Rightarrow> string \<Rightarrow> string \<Rightarrow> job_state \<Rightarrow> error option \<times> job_state" where
  \<comment> \<open>the \<open>catch\<close> of lines 111-119\<close>
  "catchListing err zipPath path st =
     (if is404 err then (None, st\<lparr>st_zip := zip_folder (or_str zipPath path) (st_zip st)\<rparr>)
      else (Some err, st))"

primrec fetchDirectoryContents ::
  "nat \<Rightarrow> api \<Rightarrow> string \<Rightarrow> string \<Rightarrow> string \<Rightarrow> string \<Rightarrow> string \<Rightarrow> job_state \<Rightarrow> walk_result" where
  "fetchDirectoryContents 0 api owner repo branch path zipPath st = None"
| "fetchDirectoryContents (Suc depth) api owner repo branch path zipPath st =
     (case getListing api (contentsUrl owner repo path branch) of
        Inl err \<Rightarrow> Some (catchListing err zipPath path st)
      | Inr contents \<Rightarrow>
          (case forLoop (fetchDirectoryContents depth api owner repo branch)
                  api owner repo branch zipPath contents 0 (length contents) st of
             None \<Rightarrow> None
           | Some (None, st') \<Rightarrow> Some (None, st')
           | Some (Some err, st') \<Rightarrow> Some (catchListing err zipPath path st')))"

subsection \<open>\<open>downloadRepository\<close>\<close>

definition getZipFilename :: "string \<Rightarrow> string \<Rightarrow> string" where
  "getZipFilename repo path =
     (if path = [] then repo @ ''.zip'' else repo @ ''-'' @ pop_split path @ ''.zip'')"

definition handleError :: "error \<Rightarrow> error" where
  \<comment> \<open>what the \<open>catch\<close> of lines 55-69 throws for a caught error\<close>
  "handleError err =
     (case err of
        AxiosError status msg \<Rightarrow>
          if status = Some 403 then
            Error ''GitHub API rate limit exceeded. Please try again later.''
          else if status = Some 404 then
            Error ''Repository, folder, or file not found. Please check the URL and try again.''
          else if status = Some 401 then
            Error ''Authentication required. Private repositories are not supported without authentication.''
          else err
      | Error msg \<Rightarrow> err)"

text \<open>
  The result of a job: \<open>Inr True\<close> for the returned \<open>true\<close> or \<open>Inl\<close> the thrown error, the
  archive and the progress events at that moment, and what was handed to \<open>saveAs\<close>.
  Generating the archive and saving it are library calls taken to succeed; the generated
  content is the table of entries.
\<close>

record job_result =
  outcome :: "error + bool"
  final :: job_state
  saved :: "(string \<times> archive) option"

definition finish :: "string \<Rightarrow> walk_result \<Rightarrow> job_result option" where
  \<comment> \<open>lines 40/43 and 46-69, after the contents were fetched\<close>
  "finish zipFilename r =
     (case r of
        None \<Rightarrow> None
      | Some (Some err, st) \<Rightarrow> Some \<lparr> outcome = Inl (handleError err), final = st, saved = None \<rparr>
      | Some (None, st) \<Rightarrow>
          Some \<lparr> outcome = Inr True,
                 final = onProgress 90 ''Starting download...''
                           (onProgress 80 ''Generating ZIP file...''
                              (onProgress 70 ''Creating ZIP file...'' st)),
                 saved = Some (zipFilename, st_zip st) \<rparr>)"

definition downloadRepository :: "nat \<Rightarrow> api \<Rightarrow> ParsedGitHubUrl \<Rightarrow> job_result option" where
  "downloadRepository depth api parsedUrl =
     finish (getZipFilename (p_repo parsedUrl) (p_path parsedUrl))
       (if p_type parsedUrl = File then
          Some (None, \<lparr> st_zip = addFileToZip api (p_owner parsedUrl) (p_repo parsedUrl)
                                   (p_branch parsedUrl) (p_path parsedUrl) '''' [],
                        st_progress = [] \<rparr>)
        else
          fetchDirectoryContents depth api (p_owner parsedUrl) (p_repo parsedUrl)
            (p_branch parsedUrl) (p_path parsedUrl) '''' \<lparr> st_zip = [], st_progress = [] \<rparr>)"

subsection \<open>Notions used in the statements and proofs\<close>

definition single_level :: "api \<Rightarrow> ParsedGitHubUrl \<Rightarrow> bool" where
  \<comment> \<open>no sub-directory of the requested directory has a non-empty listing\<close>
  "single_level api parsedUrl =
     (case getListing api (contentsUrl (p_owner parsedUrl) (p_repo parsedUrl)
                             (p_path parsedUrl) (p_branch parsedUrl)) of
        Inl err \<Rightarrow> True
      | Inr contents \<Rightarrow>
          list_all (\<lambda>item. c_type item = Type_dir \<longrightarrow>
                      (case getListing api (contentsUrl (p_owner parsedUrl) (p_repo parsedUrl)
                                              (c_path item) (p_branch parsedUrl)) of
                         Inl err \<Rightarrow> True
                       | Inr sub \<Rightarrow> sub = []))
            contents)"


definition same_or_placeholder :: "string \<times> payload \<Rightarrow> string \<times> payload \<Rightarrow> bool" where
  \<comment> \<open>the second entry is at the same path, and is the first one or the placeholder\<close>
  "same_or_placeholder e e' \<longleftrightarrow> fst e' = fst e \<and> (snd e' = snd e \<or> snd e' = placeholder)"



definition sim_state :: "job_state \<Rightarrow> job_state \<Rightarrow> bool" where
  "sim_state st st' \<longleftrightarrow>
     st_progress st' = st_progress st \<and> list_all2 same_or_placeholder (st_zip st) (st_zip st')"

definition sim_walk :: "walk_result \<Rightarrow> walk_result \<Rightarrow> bool" where
  "sim_walk w w' =
     (case (w, w') of
        (None, None) \<Rightarrow> True
      | (Some (res, st), Some (res', st')) \<Rightarrow> res' = res \<and> sim_state st st'
      | _ \<Rightarrow> False)"

primrec listed_within :: "nat \<Rightarrow> api \<Rightarrow> string \<Rightarrow> string \<Rightarrow> string \<Rightarrow> string \<Rightarrow> bool" where
  \<comment> \<open>the tree of listings below \<open>path\<close> is at most \<open>depth\<close> requests deep\<close>
  "listed_within 0 api owner repo branch path = False"
| "listed_within (Suc depth) api owner repo branch path =
     (case getListing api (contentsUrl owner repo path branch) of
        Inl err \<Rightarrow> True
      | Inr contents \<Rightarrow>
          list_all (\<lambda>item. c_type item = Type_dir \<longrightarrow>
                      listed_within depth api owner repo branch (c_path item))
            contents)"

section \<open>Example jobs\<close>

text \<open>Small mocked APIs on which the statements below are evaluated.\<close>

definition sample :: "string \<Rightarrow> string \<Rightarrow> content_type \<Rightarrow> string \<Rightarrow> string option \<Rightarrow> GitHubContent" where
  "sample name path type sha download_url =
     \<lparr> c_name = name, c_path = path, c_sha = sha, c_size = 0, c_url = '''', c_html_url = '''',
       c_git_url = '''', c_download_url = download_url, c_type = type,
       c_links = \<lparr> l_self = '''', l_git = '''', l_html = '''' \<rparr> \<rparr>"

definition network_error :: error where
  "network_error = AxiosError None ''Network Error''"

definition not_found :: error where
  "not_found = AxiosError (Some 404) ''Request failed with status code 404''"

definition root_job :: ParsedGitHubUrl where
  "root_job = \<lparr> p_owner = ''o'', p_repo = ''r'', p_branch = ''main'', p_path = '''',
                p_type = Directory \<rparr>"


definition failing_api :: "error \<Rightarrow> api" where
  \<comment> \<open>every request is rejected with the given error\<close>
  "failing_api err =
     \<lparr> getListing = (\<lambda>url. Inl err), getFileInfo = (\<lambda>url. Inl err),
       getBlob = (\<lambda>url. Inl err), getRaw = (\<lambda>url. Inl err) \<rparr>"

definition nested_api :: api where
  \<comment> \<open>two directories \<open>a\<close> and \<open>b\<close>, each holding two symlinks\<close>
  "nested_api =
     \<lparr> getListing = (\<lambda>url.
         if url = contentsUrl ''o'' ''r'' '''' ''main'' then
           Inr [sample ''a'' ''a'' Type_dir ''1'' None, sample ''b'' ''b'' Type_dir ''2'' None]
         else if url = contentsUrl ''o'' ''r'' ''a'' ''main'' then
           Inr [sample ''x'' ''a/x'' Type_symlink ''3'' None,
                sample ''y'' ''a/y'' Type_symlink ''4'' None]
         else if url = contentsUrl ''o'' ''r'' ''b'' ''main'' then
           Inr [sample ''x'' ''b/x'' Type_symlink ''5'' None,
                sample ''y'' ''b/y'' Type_symlink ''6'' None]
         else Inl not_found),
       getFileInfo = (\<lambda>url. Inl not_found),
       getBlob = (\<lambda>url. Inl not_found),
       getRaw = (\<lambda>url. Inl not_found) \<rparr>"

definition flat_api :: api where
  \<comment> \<open>a file whose fetch fails, a directory whose listing is a 404, and a symlink\<close>
  "flat_api =
     \<lparr> getListing = (\<lambda>url.
         if url = contentsUrl ''o'' ''r'' '''' ''main'' then
           Inr [sample ''x'' ''x'' Type_file ''1'' None, sample ''e'' ''e'' Type_dir ''2'' None,
                sample ''l'' ''l'' Type_symlink ''3'' None]
         else Inl not_found),
       getFileInfo = (\<lambda>url. Inl network_error),
       getBlob = (\<lambda>url. Inl network_error),
       getRaw = (\<lambda>url. Inl network_error) \<rparr>"


definition rate_limited :: error where
  "rate_limited = AxiosError (Some 403) ''Request failed with status code 403''"


definition final_events :: "(nat \<times> string) list" where
  "final_events = [(70, ''Creating ZIP file...''), (80, ''Generating ZIP file...''),
                   (90, ''Starting download...'')]"


definition flat_result :: job_result where
  "flat_result =
     \<lparr> outcome = Inr True,
       final = \<lparr> st_zip = [(''x'', placeholder), (''e'', EmptyDirectoryMarker)],
                 st_progress = [(30, ''Processing x...''), (43, ''Processing e...''),
                                (56, ''Processing l...'')] @ final_events \<rparr>,
       saved = Some (''r.zip'', [(''x'', placeholder), (''e'', EmptyDirectoryMarker)]) \<rparr>"





section \<open>Properties of the string primitives\<close>


lemma split_str_no_slash: "CHR ''/'' \<notin> set p \<Longrightarrow> split_str p = [p]"
  by (induction p) auto

lemma split_str_append_slash:
  "CHR ''/'' \<notin> set p \<Longrightarrow> split_str (p @ CHR ''/'' # s) = p # split_str s"
  by (induction p) auto

lemma split_join:
  "ps \<noteq> [] \<Longrightarrow> \<forall>p\<in>set ps. CHR ''/'' \<notin> set p \<Longrightarrow> split_str (join_str ps) = ps"
  by (induction ps rule: join_str.induct) (auto simp: split_str_no_slash split_str_append_slash)


lemma trim_id:
  "s \<noteq> [] \<Longrightarrow> \<not> isWhiteSpace (hd s) \<Longrightarrow> \<not> isWhiteSpace (last s) \<Longrightarrow> trim s = s"
proof -
  assume a: "s \<noteq> []" "\<not> isWhiteSpace (hd s)" "\<not> isWhiteSpace (last s)"
  have dw: "dropWhile isWhiteSpace xs = xs" if "xs \<noteq> []" "\<not> isWhiteSpace (hd xs)" for xs
    using that by (cases xs) auto
  have 1: "dropWhile isWhiteSpace s = s" using a by (rule_tac dw)
  have 2: "dropWhile isWhiteSpace (rev s) = rev s" using a by (intro dw) (simp_all add: hd_rev)
  show ?thesis by (simp add: trim_def 1 2)
qed







section \<open>Properties of \<open>parseGitHubUrl\<close>\<close>

subsection \<open>Auxiliary facts\<close>

lemma segment_props:
  "segment s \<Longrightarrow> s \<noteq> [] \<and> CHR ''/'' \<notin> set s \<and> \<not> isWhiteSpace (last s) \<and> last s \<noteq> CHR ''/''"
  by (auto simp: segment_def list_all_iff)

lemma last_join_str:
  "ps \<noteq> [] \<Longrightarrow> last ps \<noteq> [] \<Longrightarrow> join_str ps \<noteq> [] \<and> last (join_str ps) = last (last ps)"
  by (induction ps rule: join_str.induct) auto

lemma indexOf_https:
  "indexOf (''https://github.com/'' @ rest) githubPrefix = Some 8"
  by (simp add: githubPrefix_def)

lemma includes_https: "includes_str (''https://github.com/'' @ rest) ''github.com''"
  by (simp add: includes_str_def)

lemma pathParts_https:
  assumes "ps \<noteq> []" "\<forall>p\<in>set ps. CHR ''/'' \<notin> set p" "last ps \<noteq> []"
    "\<not> isWhiteSpace (last (last ps))"
  shows "pathParts (''https://github.com/'' @ join_str ps) = Some ps"
proof -
  define u where "u = ''https://github.com/'' @ join_str ps"
  have j: "join_str ps \<noteq> []" "last (join_str ps) = last (last ps)"
    using last_join_str assms by auto
  have ne: "u \<noteq> []" and h: "\<not> isWhiteSpace (hd u)"
    by (simp_all add: u_def isWhiteSpace_def)
  have l: "last u = last (last ps)" using j by (simp add: u_def)
  have t: "trim u = u" by (rule trim_id[OF ne h]) (simp add: l assms)
  have "last ps \<in> set ps" using assms(1) by simp
  then have "last (last ps) \<noteq> CHR ''/''" using assms(2,3) last_in_set by metis
  then have e: "\<not> endsWith u ''/''" using l ne
    by (auto simp: endsWith_def suffix_def)
  have c: "cleanUrl u = u" unfolding cleanUrl_def Let_def t using e by simp
  have i: "indexOf u githubPrefix = Some 8" unfolding u_def by (rule indexOf_https)
  have inc: "includes_str u ''github.com''" unfolding u_def by (rule includes_https)
  have d: "drop (8 + length githubPrefix) u = join_str ps" by (simp add: u_def githubPrefix_def)
  have "pathParts u = Some ps"
    unfolding pathParts_def Let_def c using i inc d split_join[OF assms(1,2)] by simp
  then show ?thesis unfolding u_def .
qed






lemma parse_type_File_iff:
  assumes "parseGitHubUrl url = Some a"
  shows "p_type a = File \<longleftrightarrow>
           (\<exists>parts. pathParts url = Some parts \<and> 3 < length parts \<and> parts ! 2 = ''blob'')"
  using assms by (auto simp: parseGitHubUrl_def split: option.splits if_splits)

subsection \<open>The three documented URL forms\<close>

text \<open>
  Claim C6. For well-formed segments \<open>o\<close>, \<open>r\<close>, \<open>b\<close>, \<open>p1\<close>, \<open>p2\<close>, \<open>f\<close>
  (non-empty, no \<open>/\<close>, no white space) the parser maps
  \<open>https://github.com/{o}/{r}\<close> to owner \<open>o\<close>, repo \<open>r\<close>, branch \<open>main\<close>, empty path,
  type directory; \<open>.../tree/{b}/{p1}/{p2}\<close> to branch \<open>b\<close>, path \<open>p1/p2\<close>, type directory;
  and \<open>.../blob/{b}/{f}\<close> to branch \<open>b\<close>, path \<open>f\<close>, type file.
\<close>

theorem parse_forms:
  assumes "segment ow" "segment rp" "segment b" "segment p1" "segment p2" "segment f"
  shows "parseGitHubUrl (''https://github.com/'' @ ow @ ''/'' @ rp) =
           Some \<lparr> p_owner = ow, p_repo = rp, p_branch = ''main'', p_path = '''', p_type = Directory \<rparr>
       \<and> parseGitHubUrl (''https://github.com/'' @ ow @ ''/'' @ rp @ ''/tree/'' @ b @ ''/'' @ p1 @ ''/'' @ p2) =
           Some \<lparr> p_owner = ow, p_repo = rp, p_branch = b, p_path = p1 @ ''/'' @ p2, p_type = Directory \<rparr>
       \<and> parseGitHubUrl (''https://github.com/'' @ ow @ ''/'' @ rp @ ''/blob/'' @ b @ ''/'' @ f) =
           Some \<lparr> p_owner = ow, p_repo = rp, p_branch = b, p_path = f, p_type = File \<rparr>"
proof -
  note s = assms[THEN segment_props]
  have 1: "pathParts (''https://github.com/'' @ join_str [ow, rp]) = Some [ow, rp]"
    using s by (intro pathParts_https) auto
  have 2: "pathParts (''https://github.com/'' @ join_str [ow, rp, ''tree'', b, p1, p2])
             = Some [ow, rp, ''tree'', b, p1, p2]"
    using s by (intro pathParts_https) auto
  have 3: "pathParts (''https://github.com/'' @ join_str [ow, rp, ''blob'', b, f])
             = Some [ow, rp, ''blob'', b, f]"
    using s by (intro pathParts_https) auto
  show ?thesis
    using 1 2 3 by (simp add: parseGitHubUrl_def)
qed

theorem parse_forms_witness:
  "segment ''octocat'' \<and> segment ''hello'' \<and> segment ''dev'' \<and> segment ''src'' \<and> segment ''lib''
   \<and> segment ''a.txt''
   \<and> parseGitHubUrl ''https://github.com/octocat/hello'' =
        Some \<lparr> p_owner = ''octocat'', p_repo = ''hello'', p_branch = ''main'', p_path = '''', p_type = Directory \<rparr>
   \<and> parseGitHubUrl ''https://github.com/octocat/hello/tree/dev/src/lib'' =
        Some \<lparr> p_owner = ''octocat'', p_repo = ''hello'', p_branch = ''dev'', p_path = ''src/lib'', p_type = Directory \<rparr>
   \<and> parseGitHubUrl ''https://github.com/octocat/hello/blob/dev/a.txt'' =
        Some \<lparr> p_owner = ''octocat'', p_repo = ''hello'', p_branch = ''dev'', p_path = ''a.txt'', p_type = File \<rparr>"
proof -
  have s: "segment ''octocat''" "segment ''hello''" "segment ''dev''" "segment ''src''"
    "segment ''lib''" "segment ''a.txt''"
    by (simp_all add: segment_def isWhiteSpace_def)
  show ?thesis using parse_forms[OF s] s by simp
qed

subsection \<open>Rejected inputs\<close>



subsection \<open>Owner and repository of a successful parse\<close>

text \<open>
  Claim C8. A successful parse is claimed to have a non-empty owner and a non-empty repo.
  The guard of the source counts segments only (\<open>pathParts.length < 2\<close>, commented
  ``Need at least owner and repo''), so an empty segment passes it: for
  \<open>https://github.com/octocat//\<close> one trailing slash is removed, the remainder
  \<open>octocat/\<close> splits into \<open>["octocat", ""]\<close>, and the parser succeeds with the empty
  string as repo. (The second half of the claim, on the type, is \<open>parse_type_File_iff\<close>.)
\<close>

theorem parse_empty_repo:
  "parseGitHubUrl ''https://github.com/octocat//'' =
     Some \<lparr> p_owner = ''octocat'', p_repo = '''', p_branch = ''main'', p_path = '''', p_type = Directory \<rparr>"
  by code_simp

subsection \<open>Unknown specifiers\<close>

text \<open>
  Claim C10. Whenever the segment list after \<open>github.com/\<close> has at least three segments and
  the third is neither \<open>tree\<close> nor \<open>blob\<close>, or the list has exactly three segments
  (as in \<open>{owner}/{repo}/tree\<close>), the parser succeeds with the repository-root address:
  branch \<open>main\<close>, empty path, type directory, the extra segments ignored.
\<close>

theorem parse_ignores_unknown_specifier:
  assumes "pathParts url = Some parts" and "3 \<le> length parts"
    and "(parts ! 2 \<noteq> ''tree'' \<and> parts ! 2 \<noteq> ''blob'') \<or> length parts = 3"
  shows "parseGitHubUrl url =
           Some \<lparr> p_owner = parts ! 0, p_repo = parts ! 1, p_branch = ''main'',
                  p_path = '''', p_type = Directory \<rparr>"
  using assms by (auto simp: parseGitHubUrl_def)

theorem parse_ignores_unknown_specifier_witness:
  "pathParts ''https://github.com/o/r/releases/tag/v1'' = Some [''o'', ''r'', ''releases'', ''tag'', ''v1'']
   \<and> parseGitHubUrl ''https://github.com/o/r/releases/tag/v1'' =
           Some \<lparr> p_owner = ''o'', p_repo = ''r'', p_branch = ''main'',
                  p_path = '''', p_type = Directory \<rparr>
   \<and> pathParts ''https://github.com/o/r/tree'' = Some [''o'', ''r'', ''tree'']
   \<and> parseGitHubUrl ''https://github.com/o/r/tree'' =
           Some \<lparr> p_owner = ''o'', p_repo = ''r'', p_branch = ''main'',
                  p_path = '''', p_type = Directory \<rparr>"
proof -
  have 1: "pathParts ''https://github.com/o/r/releases/tag/v1'' = Some [''o'', ''r'', ''releases'', ''tag'', ''v1'']"
    by code_simp
  have 2: "pathParts ''https://github.com/o/r/tree'' = Some [''o'', ''r'', ''tree'']"
    by code_simp
  show ?thesis
    using parse_ignores_unknown_specifier[OF 1] parse_ignores_unknown_specifier[OF 2] 1 2
    by simp
qed

section \<open>Properties of the download job\<close>

subsection \<open>The recursion depth\<close>

text \<open>
  The depth allowed decides whether a result is available, never what it is: a traversal
  that comes back within some depth comes back with the same result within any larger one.
\<close>

lemma forLoop_mono:
  assumes "\<And>p zp s r. recurse p zp s = Some r \<Longrightarrow> recurse' p zp s = Some r"
    and "forLoop recurse api owner repo branch zipPath items i n st = Some r"
  shows "forLoop recurse' api owner repo branch zipPath items i n st = Some r"
  using assms(2)
proof (induction items arbitrary: i st)
  case Nil
  then show ?case by simp
next
  case (Cons item rest)
  show ?case
  proof (cases "c_type item = Type_dir")
    case True
    let ?s = "(onProgress (progressPercent i n) (''Processing '' @ c_path item @ ''...'') st)
                \<lparr>st_zip := zip_folder (itemZipPath zipPath item) (st_zip st)\<rparr>"
    from Cons.prems True obtain res s2 where
      a: "recurse (c_path item) (itemZipPath zipPath item) ?s = Some (res, s2)"
      by (cases "recurse (c_path item) (itemZipPath zipPath item) ?s") auto
    from assms(1)[OF a]
    have a': "recurse' (c_path item) (itemZipPath zipPath item) ?s = Some (res, s2)" .
    show ?thesis
    proof (cases res)
      case None
      with Cons.prems True a
      have "forLoop recurse api owner repo branch zipPath rest (Suc i) n s2 = Some r" by simp
      from Cons.IH[OF this] True a' None show ?thesis by simp
    next
      case (Some err)
      with Cons.prems True a have "r = (Some err, s2)" by simp
      with True a' Some show ?thesis by simp
    qed
  next
    case False
    with Cons.prems Cons.IH show ?thesis by (auto split: if_splits)
  qed
qed

lemma fetchDirectoryContents_Suc:
  "fetchDirectoryContents depth api owner repo branch path zipPath st = Some r \<Longrightarrow>
   fetchDirectoryContents (Suc depth) api owner repo branch path zipPath st = Some r"
proof (induction depth arbitrary: path zipPath st r)
  case 0
  then show ?case by simp
next
  case (Suc depth)
  show ?case
  proof (cases "getListing api (contentsUrl owner repo path branch)")
    case (Inl err)
    with Suc.prems show ?thesis by simp
  next
    case (Inr contents)
    with Suc.prems obtain a where
      a: "forLoop (fetchDirectoryContents depth api owner repo branch) api owner repo branch
            zipPath contents 0 (length contents) st = Some a"
      by (auto split: option.splits)
    have "forLoop (fetchDirectoryContents (Suc depth) api owner repo branch) api owner repo branch
            zipPath contents 0 (length contents) st = Some a"
      by (rule forLoop_mono[OF _ a]) (rule Suc.IH)
    with a Inr Suc.prems show ?thesis by simp
  qed
qed

lemma downloadRepository_deeper:
  assumes "downloadRepository depth api parsedUrl = Some r" and "depth \<le> depth'"
  shows "downloadRepository depth' api parsedUrl = Some r"
proof -
  have "fetchDirectoryContents (depth + k) api owner repo branch path zipPath st = Some w"
    if "fetchDirectoryContents depth api owner repo branch path zipPath st = Some w"
    for k owner repo branch path zipPath st w
    using that by (induction k) (auto dest: fetchDirectoryContents_Suc)
  from this[of _ _ _ _ _ _ _ "depth' - depth"] assms show ?thesis
    by (auto simp: downloadRepository_def finish_def split: if_splits option.splits)
qed

lemma forLoop_returns:
  assumes "\<And>item s. item \<in> set items \<Longrightarrow> c_type item = Type_dir \<Longrightarrow>
             recurse (c_path item) (itemZipPath zipPath item) s \<noteq> None"
  shows "forLoop recurse api owner repo branch zipPath items i n st \<noteq> None"
  using assms
proof (induction items arbitrary: i st)
  case Nil
  then show ?case by simp
next
  case (Cons item rest)
  have rest: "forLoop recurse api owner repo branch zipPath rest (Suc i) n s \<noteq> None" for s
    by (rule Cons.IH) (rule Cons.prems, simp_all)
  show ?case
  proof (cases "c_type item = Type_dir")
    case True
    let ?s = "(onProgress (progressPercent i n) (''Processing '' @ c_path item @ ''...'') st)
                \<lparr>st_zip := zip_folder (itemZipPath zipPath item) (st_zip st)\<rparr>"
    from Cons.prems[OF _ True, of ?s] obtain res s2 where
      "recurse (c_path item) (itemZipPath zipPath item) ?s = Some (res, s2)" by auto
    with True rest[of s2] show ?thesis by (cases res) auto
  next
    case False
    with rest show ?thesis by simp
  qed
qed

lemma quiet_listing_returns:
  assumes "case getListing api (contentsUrl owner repo path branch) of
             Inl err \<Rightarrow> True | Inr sub \<Rightarrow> sub = []"
  shows "fetchDirectoryContents (Suc depth) api owner repo branch path zp s \<noteq> None"
  using assms by (auto split: sum.splits)

lemma single_level_returns:
  assumes "p_type parsedUrl = File \<or> single_level api parsedUrl"
  shows "downloadRepository (Suc (Suc depth)) api parsedUrl \<noteq> None"
proof (cases "p_type parsedUrl = File")
  case True
  then show ?thesis by (simp add: downloadRepository_def finish_def)
next
  case False
  with assms have sl: "single_level api parsedUrl" by simp
  let ?o = "p_owner parsedUrl" and ?r = "p_repo parsedUrl" and ?b = "p_branch parsedUrl"
  have "fetchDirectoryContents (Suc (Suc depth)) api ?o ?r ?b (p_path parsedUrl) '''' st \<noteq> None"
    for st
  proof (cases "getListing api (contentsUrl ?o ?r (p_path parsedUrl) ?b)")
    case (Inl err)
    then show ?thesis by simp
  next
    case (Inr contents)
    have "forLoop (fetchDirectoryContents (Suc depth) api ?o ?r ?b) api ?o ?r ?b ''''
            contents 0 (length contents) st \<noteq> None"
    proof (rule forLoop_returns)
      fix item s assume "item \<in> set contents" "c_type item = Type_dir"
      with sl Inr have "case getListing api (contentsUrl ?o ?r (c_path item) ?b) of
             Inl err \<Rightarrow> True | Inr sub \<Rightarrow> sub = []"
        by (auto simp: single_level_def list_all_iff)
      then show "fetchDirectoryContents (Suc depth) api ?o ?r ?b (c_path item)
                   (itemZipPath '''' item) s \<noteq> None"
        by (rule quiet_listing_returns)
    qed
    with Inr show ?thesis by (auto split: option.splits prod.splits)
  qed
  with False show ?thesis
    by (auto simp: downloadRepository_def finish_def split: option.splits prod.splits)
qed

text \<open>
  A traversal returns within the depth of the tree of listings, and a file job returns.
\<close>

lemma listed_within_returns:
  "listed_within depth api owner repo branch path \<Longrightarrow>
   fetchDirectoryContents depth api owner repo branch path zipPath st \<noteq> None"
proof (induction depth arbitrary: path zipPath st)
  case 0
  then show ?case by simp
next
  case (Suc depth)
  show ?case
  proof (cases "getListing api (contentsUrl owner repo path branch)")
    case (Inl err)
    then show ?thesis by simp
  next
    case (Inr contents)
    have "forLoop (fetchDirectoryContents depth api owner repo branch) api owner repo branch
            zipPath contents 0 (length contents) st \<noteq> None"
    proof (rule forLoop_returns)
      fix item s assume "item \<in> set contents" "c_type item = Type_dir"
      with Suc.prems Inr have "listed_within depth api owner repo branch (c_path item)"
        by (auto simp: list_all_iff)
      then show "fetchDirectoryContents depth api owner repo branch (c_path item)
                   (itemZipPath zipPath item) s \<noteq> None"
        by (rule Suc.IH)
    qed
    with Inr show ?thesis by (auto split: option.splits prod.splits)
  qed
qed

lemma downloadRepository_returns:
  assumes "p_type parsedUrl = File
         \<or> listed_within depth api (p_owner parsedUrl) (p_repo parsedUrl) (p_branch parsedUrl)
              (p_path parsedUrl)"
  shows "downloadRepository depth api parsedUrl \<noteq> None"
  using assms listed_within_returns[of depth api "p_owner parsedUrl" "p_repo parsedUrl"
      "p_branch parsedUrl" "p_path parsedUrl" "''''" "\<lparr> st_zip = [], st_progress = [] \<rparr>"]
  by (auto simp: downloadRepository_def finish_def split: option.splits prod.splits)

subsection \<open>Where a thrown error comes from\<close>

lemma handleError_cases:
  "handleError (AxiosError (Some 403) m) = Error ''GitHub API rate limit exceeded. Please try again later.''"
  "handleError (AxiosError (Some 404) m) = Error ''Repository, folder, or file not found. Please check the URL and try again.''"
  "handleError (AxiosError (Some 401) m) = Error ''Authentication required. Private repositories are not supported without authentication.''"
  "s \<noteq> Some 403 \<Longrightarrow> s \<noteq> Some 404 \<Longrightarrow> s \<noteq> Some 401 \<Longrightarrow> handleError (AxiosError s m) = AxiosError s m"
  "handleError (Error m) = Error m"
  by (simp_all add: handleError_def)

lemma catchListing_throws:
  "catchListing err zipPath path st = (Some e, st') \<longleftrightarrow> \<not> is404 err \<and> e = err \<and> st' = st"
  by (auto simp: catchListing_def)

lemma forLoop_throws:
  assumes "forLoop recurse api owner repo branch zipPath items i n st = Some (Some err, st')"
  shows "\<exists>p zp s. recurse p zp s = Some (Some err, st')"
  using assms
proof (induction items arbitrary: i st)
  case Nil
  then show ?case by simp
next
  case (Cons item rest)
  then show ?case
    by (auto split: if_splits option.splits prod.splits)
qed

lemma fetchDirectoryContents_throws:
  "fetchDirectoryContents depth api owner repo branch path zipPath st = Some (Some err, st')
   \<Longrightarrow> \<not> is404 err \<and> (\<exists>p. getListing api (contentsUrl owner repo p branch) = Inl err)"
proof (induction depth arbitrary: path zipPath st)
  case 0
  then show ?case by simp
next
  case (Suc depth)
  show ?case
  proof (cases "getListing api (contentsUrl owner repo path branch)")
    case (Inl e)
    with Suc.prems show ?thesis by (auto simp: catchListing_throws)
  next
    case (Inr contents)
    with Suc.prems have
      "forLoop (fetchDirectoryContents depth api owner repo branch) api owner repo branch zipPath
         contents 0 (length contents) st = Some (Some err, st')"
      by (auto simp: catchListing_def split: option.splits prod.splits if_splits)
    from forLoop_throws[OF this] Suc.IH show ?thesis by blast
  qed
qed

subsection \<open>Progress values\<close>

lemma progressPercent_bounds: "i < n \<Longrightarrow> 30 \<le> progressPercent i n \<and> progressPercent i n \<le> 69"
proof -
  assume "i < n"
  then have "i * 40 < 40 * n" by simp
  then have "(i * 40) div n < 40" by (rule less_mult_imp_div_less)
  then show ?thesis by (simp add: progressPercent_def)
qed

lemma progressPercent_mono: "i \<le> j \<Longrightarrow> progressPercent i n \<le> progressPercent j n"
  by (simp add: progressPercent_def div_le_mono)

lemma st_progress_onProgress [simp]:
  "st_progress (onProgress p m st) = st_progress st @ [(p, m)]"
  "st_zip (onProgress p m st) = st_zip st"
  by (simp_all add: onProgress_def)

lemma catchListing_progress:
  "catchListing err zipPath path st = (res, st') \<Longrightarrow> st_progress st' = st_progress st"
  by (auto simp: catchListing_def split: if_splits)

lemma forLoop_bounded:
  assumes "\<And>p zp s res s'. recurse p zp s = Some (res, s') \<Longrightarrow>
              \<forall>e\<in>set (st_progress s). 30 \<le> fst e \<and> fst e \<le> 69 \<Longrightarrow>
              \<forall>e\<in>set (st_progress s'). 30 \<le> fst e \<and> fst e \<le> 69"
    and "forLoop recurse api owner repo branch zipPath items i n st = Some (res, st')"
    and "i + length items = n"
    and "\<forall>e\<in>set (st_progress st). 30 \<le> fst e \<and> fst e \<le> 69"
  shows "\<forall>e\<in>set (st_progress st'). 30 \<le> fst e \<and> fst e \<le> 69"
  using assms(2-)
proof (induction items arbitrary: i st)
  case Nil
  then show ?case by simp
next
  case (Cons item rest)
  let ?st1 = "onProgress (progressPercent i n) (''Processing '' @ c_path item @ ''...'') st"
  have "i < n" using Cons.prems(2) by simp
  then have b1: "\<forall>e\<in>set (st_progress ?st1). 30 \<le> fst e \<and> fst e \<le> 69"
    using Cons.prems(3) progressPercent_bounds by auto
  have n: "Suc i + length rest = n" using Cons.prems(2) by simp
  consider (isdir) "c_type item = Type_dir" | (isfile) "c_type item = Type_file"
    | (other) "c_type item \<noteq> Type_dir" "c_type item \<noteq> Type_file" by blast
  then show ?case
  proof cases
    case isdir
    let ?st2 = "?st1\<lparr>st_zip := zip_folder (itemZipPath zipPath item) (st_zip st)\<rparr>"
    show ?thesis
    proof (cases "recurse (c_path item) (itemZipPath zipPath item) ?st2")
      case None
      with isdir Cons.prems(1) show ?thesis by simp
    next
      case (Some a)
      obtain r s2 where a: "a = (r, s2)" by (cases a)
      have b2: "\<forall>e\<in>set (st_progress s2). 30 \<le> fst e \<and> fst e \<le> 69"
        using assms(1)[OF Some[unfolded a]] b1 by simp
      show ?thesis
      proof (cases r)
        case None
        with isdir Some a Cons.prems(1)
        have "forLoop recurse api owner repo branch zipPath rest (Suc i) n s2 = Some (res, st')"
          by simp
        from Cons.IH[OF this n b2] show ?thesis .
      next
        case (Some err)
        with isdir \<open>recurse _ _ _ = Some a\<close> a Cons.prems(1) have "st' = s2" by simp
        with b2 show ?thesis by simp
      qed
    qed
  next
    case isfile
    let ?st2 = "?st1\<lparr>st_zip := addFileToZip api owner repo branch (c_path item)
                           (itemZipPath zipPath item) (st_zip st)\<rparr>"
    have "forLoop recurse api owner repo branch zipPath rest (Suc i) n ?st2 = Some (res, st')"
      using isfile Cons.prems(1) by simp
    moreover have "\<forall>e\<in>set (st_progress ?st2). 30 \<le> fst e \<and> fst e \<le> 69" using b1 by simp
    ultimately show ?thesis using Cons.IH n by blast
  next
    case other
    then have "forLoop recurse api owner repo branch zipPath rest (Suc i) n ?st1 = Some (res, st')"
      using Cons.prems(1) by simp
    from Cons.IH[OF this n b1] show ?thesis .
  qed
qed

lemma fetchDirectoryContents_bounded:
  "fetchDirectoryContents depth api owner repo branch path zipPath st = Some (res, st') \<Longrightarrow>
   \<forall>e\<in>set (st_progress st). 30 \<le> fst e \<and> fst e \<le> 69 \<Longrightarrow>
   \<forall>e\<in>set (st_progress st'). 30 \<le> fst e \<and> fst e \<le> 69"
proof (induction depth arbitrary: path zipPath st res st')
  case 0
  then show ?case by simp
next
  case (Suc depth)
  show ?case
  proof (cases "getListing api (contentsUrl owner repo path branch)")
    case (Inl err)
    with Suc.prems(1) have "catchListing err zipPath path st = (res, st')" by simp
    from catchListing_progress[OF this] Suc.prems(2) show ?thesis by simp
  next
    case (Inr contents)
    with Suc.prems(1) obtain r s1 where
      l: "forLoop (fetchDirectoryContents depth api owner repo branch) api owner repo branch zipPath
            contents 0 (length contents) st = Some (r, s1)"
      and s: "st_progress st' = st_progress s1"
      by (auto split: option.splits prod.splits dest: catchListing_progress)
    have "\<forall>e\<in>set (st_progress s1). 30 \<le> fst e \<and> fst e \<le> 69"
      by (rule forLoop_bounded[OF _ l _ Suc.prems(2)]) (use Suc.IH in blast, simp)
    with s show ?thesis by simp
  qed
qed

lemma quiet_listing:
  assumes "case getListing api (contentsUrl owner repo path branch) of
             Inl err \<Rightarrow> True | Inr sub \<Rightarrow> sub = []"
    and "fetchDirectoryContents depth api owner repo branch path zp s = Some (res, s')"
  shows "st_progress s' = st_progress s"
  using assms
  by (cases depth)
     (auto split: sum.splits option.splits prod.splits dest: catchListing_progress)

lemma forLoop_sorted:
  assumes "\<And>item s res s'. item \<in> set items \<Longrightarrow> c_type item = Type_dir \<Longrightarrow>
              recurse (c_path item) (itemZipPath zipPath item) s = Some (res, s') \<Longrightarrow>
              st_progress s' = st_progress s"
    and "forLoop recurse api owner repo branch zipPath items i n st = Some (res, st')"
    and "i + length items = n"
    and "sorted (map fst (st_progress st))"
    and "\<forall>e\<in>set (st_progress st). fst e \<le> progressPercent i n \<and> fst e \<le> 69"
  shows "sorted (map fst (st_progress st')) \<and> (\<forall>e\<in>set (st_progress st'). fst e \<le> 69)"
  using assms
proof (induction items arbitrary: i st)
  case Nil
  then show ?case by simp
next
  case (Cons item rest)
  let ?st1 = "onProgress (progressPercent i n) (''Processing '' @ c_path item @ ''...'') st"
  have "i < n" using Cons.prems(3) by simp
  note pb = progressPercent_bounds[OF this]
  have s1: "sorted (map fst (st_progress ?st1))"
    using Cons.prems(4,5) by (auto simp: sorted_append)
  have b1: "\<forall>e\<in>set (st_progress ?st1). fst e \<le> progressPercent (Suc i) n \<and> fst e \<le> 69"
    using Cons.prems(5) pb progressPercent_mono[of i "Suc i" n] by fastforce
  have n: "Suc i + length rest = n" using Cons.prems(3) by simp
  have q: "\<And>item s res s'. item \<in> set rest \<Longrightarrow> c_type item = Type_dir \<Longrightarrow>
              recurse (c_path item) (itemZipPath zipPath item) s = Some (res, s') \<Longrightarrow>
              st_progress s' = st_progress s"
    using Cons.prems(1) by (meson list.set_intros(2))
  consider (isdir) "c_type item = Type_dir" | (isfile) "c_type item = Type_file"
    | (other) "c_type item \<noteq> Type_dir" "c_type item \<noteq> Type_file" by blast
  then show ?case
  proof cases
    case isdir
    let ?st2 = "?st1\<lparr>st_zip := zip_folder (itemZipPath zipPath item) (st_zip st)\<rparr>"
    show ?thesis
    proof (cases "recurse (c_path item) (itemZipPath zipPath item) ?st2")
      case None
      with isdir Cons.prems(2) show ?thesis by simp
    next
      case (Some a)
      obtain r s2 where a: "a = (r, s2)" by (cases a)
      have "st_progress s2 = st_progress ?st2"
        using Cons.prems(1)[OF list.set_intros(1) isdir Some[unfolded a]] .
      then have e: "st_progress s2 = st_progress ?st1" by simp
      show ?thesis
      proof (cases r)
        case None
        with isdir Some a Cons.prems(2)
        have "forLoop recurse api owner repo branch zipPath rest (Suc i) n s2 = Some (res, st')"
          by simp
        from Cons.IH[OF q this n] s1 b1 e show ?thesis by simp
      next
        case (Some err)
        with isdir \<open>recurse _ _ _ = Some a\<close> a Cons.prems(2) have "st' = s2" by simp
        with s1 b1 e show ?thesis by simp
      qed
    qed
  next
    case isfile
    let ?st2 = "?st1\<lparr>st_zip := addFileToZip api owner repo branch (c_path item)
                           (itemZipPath zipPath item) (st_zip st)\<rparr>"
    have "forLoop recurse api owner repo branch zipPath rest (Suc i) n ?st2 = Some (res, st')"
      using isfile Cons.prems(2) by simp
    from Cons.IH[OF q this n] s1 b1 show ?thesis by simp
  next
    case other
    then have "forLoop recurse api owner repo branch zipPath rest (Suc i) n ?st1 = Some (res, st')"
      using Cons.prems(2) by simp
    from Cons.IH[OF q this n] s1 b1 show ?thesis by simp
  qed
qed

lemma single_level_sorted:
  assumes sl: "single_level api parsedUrl"
    and run: "fetchDirectoryContents depth api (p_owner parsedUrl) (p_repo parsedUrl)
           (p_branch parsedUrl) (p_path parsedUrl) zipPath \<lparr> st_zip = [], st_progress = [] \<rparr>
         = Some (res, st')"
  shows "sorted (map fst (st_progress st')) \<and> (\<forall>e\<in>set (st_progress st'). fst e \<le> 69)"
proof (cases depth)
  case 0
  with run show ?thesis by simp
next
  case (Suc d)
  show ?thesis
  proof (cases "getListing api (contentsUrl (p_owner parsedUrl) (p_repo parsedUrl)
                             (p_path parsedUrl) (p_branch parsedUrl))")
    case (Inl err)
    with run Suc have "st_progress st' = []" by (auto dest: catchListing_progress)
    then show ?thesis by simp
  next
    case (Inr contents)
    with run Suc obtain r s1 where
      l: "forLoop (fetchDirectoryContents d api (p_owner parsedUrl) (p_repo parsedUrl) (p_branch parsedUrl))
            api (p_owner parsedUrl) (p_repo parsedUrl) (p_branch parsedUrl) zipPath
            contents 0 (length contents) \<lparr> st_zip = [], st_progress = [] \<rparr> = Some (r, s1)"
      and s: "st_progress st' = st_progress s1"
      by (auto split: option.splits prod.splits dest: catchListing_progress)
    have q: "st_progress s' = st_progress s"
      if "item \<in> set contents" "c_type item = Type_dir"
        "fetchDirectoryContents d api (p_owner parsedUrl) (p_repo parsedUrl) (p_branch parsedUrl)
           (c_path item) (itemZipPath zipPath item) s = Some (res, s')" for item s res s'
    proof (rule quiet_listing[OF _ that(3)])
      show "case getListing api (contentsUrl (p_owner parsedUrl) (p_repo parsedUrl)
                                   (c_path item) (p_branch parsedUrl)) of
              Inl err \<Rightarrow> True | Inr sub \<Rightarrow> sub = []"
        using sl that(1,2) Inr by (auto simp: single_level_def list_all_iff)
    qed
    have "sorted (map fst (st_progress s1)) \<and> (\<forall>e\<in>set (st_progress s1). fst e \<le> 69)"
      by (rule forLoop_sorted[OF q l]) simp_all
    with s show ?thesis by simp
  qed
qed

lemma progress_of_returned_job:
  assumes "downloadRepository depth api parsedUrl = Some r"
  shows "(p_type parsedUrl = File \<or> single_level api parsedUrl
            \<longrightarrow> sorted (map fst (st_progress (final r))))
       \<and> (\<exists>traversal. st_progress (final r) =
             traversal @ (if outcome r = Inr True
                          then [(70, ''Creating ZIP file...''), (80, ''Generating ZIP file...''),
                                (90, ''Starting download...'')]
                          else [])
           \<and> (\<forall>e\<in>set traversal. 30 \<le> fst e \<and> fst e \<le> 69))"
proof (cases "p_type parsedUrl = File")
  case True
  with assms have
    "st_progress (final r) = [(70, ''Creating ZIP file...''), (80, ''Generating ZIP file...''),
                                (90, ''Starting download...'')]" "outcome r = Inr True"
    by (auto simp: downloadRepository_def finish_def)
  then show ?thesis by simp
next
  case False
  with assms obtain res st where
    w: "fetchDirectoryContents depth api (p_owner parsedUrl) (p_repo parsedUrl)
          (p_branch parsedUrl) (p_path parsedUrl) '''' \<lparr> st_zip = [], st_progress = [] \<rparr>
        = Some (res, st)"
    and f: "finish (getZipFilename (p_repo parsedUrl) (p_path parsedUrl)) (Some (res, st)) = Some r"
    by (auto simp: downloadRepository_def finish_def split: option.splits)
  have dec: "st_progress (final r) =
             st_progress st @ (if outcome r = Inr True
                          then [(70, ''Creating ZIP file...''), (80, ''Generating ZIP file...''),
                                (90, ''Starting download...'')]
                          else [])"
    using f by (cases res) (auto simp: finish_def)
  have b: "\<forall>e\<in>set (st_progress st). 30 \<le> fst e \<and> fst e \<le> 69"
    using fetchDirectoryContents_bounded[OF w] by simp
  have "sorted (map fst (st_progress (final r)))" if "single_level api parsedUrl"
  proof -
    from single_level_sorted[OF that w]
    have "sorted (map fst (st_progress st))" "\<forall>e\<in>set (st_progress st). fst e \<le> 69" by auto
    then show ?thesis unfolding dec by (auto simp: sorted_append)
  qed
  with dec b False show ?thesis by blast
qed

subsection \<open>File failures do not change the course of a job\<close>









lemma sim_walk_simps [simp]:
  "sim_walk None w' \<longleftrightarrow> w' = None"
  "sim_walk (Some (res, st)) w' \<longleftrightarrow> (\<exists>st'. w' = Some (res, st') \<and> sim_state st st')"
  by (auto simp: sim_walk_def split: option.splits)









subsection \<open>Progress over the lifetime of a job\<close>

text \<open>
  Claim C1 says that the percentages handed to \<open>onProgress\<close> never decrease, nested
  traversal included. They do decrease: every listing restarts at 30. In the job below the
  root lists the directories \<open>a\<close> and \<open>b\<close>, each with two entries; the second entry of
  \<open>a\<close> reports 50, \<open>b\<close> reports 50, and the first entry of \<open>b\<close> reports 30.
\<close>

theorem progress_decreases_when_nested:
  "map_option (map fst \<circ> st_progress \<circ> final) (downloadRepository 2 nested_api root_job)
     = Some [30, 30, 50, 50, 30, 50, 70, 80, 90]
   \<and> \<not> sorted [30, 30, 50, 50, 30, 50, 70, 80, 90 :: nat]"
  by code_simp

text \<open>
  Claim C1, amended. A file job, and a directory job in which no sub-directory of the
  requested directory has a non-empty listing, returns (within depth 2) with percentages
  that never decrease. In every job that returns, each value reported during the traversal
  lies between 30 and 69, and the values 70, 80, 90 follow the traversal exactly when the
  job succeeds.
\<close>

theorem progress_single_level:
  "(p_type parsedUrl = File \<or> single_level api parsedUrl \<longrightarrow>
      (\<exists>r. downloadRepository (Suc (Suc depth)) api parsedUrl = Some r
           \<and> sorted (map fst (st_progress (final r)))))
   \<and> (\<forall>r. downloadRepository depth' api parsedUrl = Some r \<longrightarrow>
        (\<exists>traversal. st_progress (final r) =
             traversal @ (if outcome r = Inr True
                          then [(70, ''Creating ZIP file...''), (80, ''Generating ZIP file...''),
                                (90, ''Starting download...'')]
                          else [])
           \<and> (\<forall>e\<in>set traversal. 30 \<le> fst e \<and> fst e \<le> 69)))"
proof (intro conjI impI allI)
  assume a: "p_type parsedUrl = File \<or> single_level api parsedUrl"
  from single_level_returns[OF a, of depth] obtain r where
    r: "downloadRepository (Suc (Suc depth)) api parsedUrl = Some r" by auto
  from progress_of_returned_job[OF r] a
  have "sorted (map fst (st_progress (final r)))" by blast
  with r show "\<exists>r. downloadRepository (Suc (Suc depth)) api parsedUrl = Some r
           \<and> sorted (map fst (st_progress (final r)))" by blast
next
  fix r assume "downloadRepository depth' api parsedUrl = Some r"
  from progress_of_returned_job[OF this]
  show "\<exists>traversal. st_progress (final r) =
             traversal @ (if outcome r = Inr True
                          then [(70, ''Creating ZIP file...''), (80, ''Generating ZIP file...''),
                                (90, ''Starting download...'')]
                          else [])
           \<and> (\<forall>e\<in>set traversal. 30 \<le> fst e \<and> fst e \<le> 69)" by blast
qed

theorem progress_single_level_witness:
  "single_level flat_api root_job
   \<and> downloadRepository 2 flat_api root_job = Some flat_result
   \<and> sorted (map fst (st_progress (final flat_result)))
   \<and> map fst (st_progress (final flat_result)) = [30, 43, 56, 70, 80, 90]
   \<and> outcome flat_result = Inr True
   \<and> (\<exists>traversal. st_progress (final flat_result) = traversal @ final_events
         \<and> (\<forall>e\<in>set traversal. 30 \<le> fst e \<and> fst e \<le> 69))"
proof -
  have run: "downloadRepository 2 flat_api root_job = Some flat_result" by code_simp
  have run': "downloadRepository (Suc (Suc 0)) flat_api root_job = Some flat_result"
    using run by (simp add: numeral_2_eq_2)
  have sl: "single_level flat_api root_job" by code_simp
  have ok: "outcome flat_result = Inr True" by (simp add: flat_result_def)
  have v: "map fst (st_progress (final flat_result)) = [30, 43, 56, 70, 80, 90]"
    by (simp add: flat_result_def final_events_def)
  note t = progress_single_level[of root_job flat_api 0 2]
  have "sorted (map fst (st_progress (final flat_result)))"
    using t[THEN conjunct1] sl run' by auto
  moreover have "\<exists>traversal. st_progress (final flat_result) = traversal @ final_events
         \<and> (\<forall>e\<in>set traversal. 30 \<le> fst e \<and> fst e \<le> 69)"
    using t[THEN conjunct2, THEN spec, of flat_result] run ok by (simp add: final_events_def)
  ultimately show ?thesis using sl run ok v by blast
qed

subsection \<open>The error a job terminates with\<close>

text \<open>
  Whatever \<open>downloadRepository\<close> throws is the mapping of a rejected listing request, and
  that request was not rejected with status 404: status 403 gives the rate-limit message,
  401 the authentication message, and any other error is thrown again unchanged.
\<close>

lemma thrown_error_origin:
  assumes "downloadRepository depth api parsedUrl = Some r" and "outcome r = Inl thrown"
  shows "\<exists>url err. getListing api url = Inl err \<and> \<not> is404 err \<and> thrown = handleError err
           \<and> (case err of
                 AxiosError status msg \<Rightarrow>
                   (status = Some 403 \<longrightarrow>
                      thrown = Error ''GitHub API rate limit exceeded. Please try again later.'')
                 \<and> (status = Some 401 \<longrightarrow>
                      thrown = Error ''Authentication required. Private repositories are not supported without authentication.'')
                 \<and> (status \<noteq> Some 403 \<and> status \<noteq> Some 401 \<longrightarrow> thrown = err)
               | Error msg \<Rightarrow> thrown = err)"
proof -
  from assms obtain err st where
    w: "fetchDirectoryContents depth api (p_owner parsedUrl) (p_repo parsedUrl)
          (p_branch parsedUrl) (p_path parsedUrl) '''' \<lparr> st_zip = [], st_progress = [] \<rparr>
        = Some (Some err, st)" and t: "thrown = handleError err"
    by (auto simp: downloadRepository_def finish_def split: if_splits option.splits prod.splits)
  from fetchDirectoryContents_throws[OF w] obtain p where
    n: "\<not> is404 err" and
    l: "getListing api (contentsUrl (p_owner parsedUrl) (p_repo parsedUrl) p (p_branch parsedUrl)) = Inl err"
    by blast
  have "case err of
                 AxiosError status msg \<Rightarrow>
                   (status = Some 403 \<longrightarrow>
                      thrown = Error ''GitHub API rate limit exceeded. Please try again later.'')
                 \<and> (status = Some 401 \<longrightarrow>
                      thrown = Error ''Authentication required. Private repositories are not supported without authentication.'')
                 \<and> (status \<noteq> Some 403 \<and> status \<noteq> Some 401 \<longrightarrow> thrown = err)
               | Error msg \<Rightarrow> thrown = err"
    using n unfolding t by (cases err) (simp_all add: handleError_def)
  with l n t show ?thesis by blast
qed

lemma rate_limit_is_thrown:
  "downloadRepository 1 (failing_api rate_limited) root_job
     = Some \<lparr> outcome = Inl (Error ''GitHub API rate limit exceeded. Please try again later.''),
              final = \<lparr> st_zip = [], st_progress = [] \<rparr>, saved = None \<rparr>"
  by code_simp

text \<open>
  Claim C2. The claim has a 404 end in the not-found message, and lines 61-62 of the source
  map it so. No 404 reaches them: a listing rejected with 404 is recovered in
  \<open>fetchDirectoryContents\<close> (lines 111-115) and every error of a file request is swallowed
  in \<open>addFileToZip\<close> (lines 160-167). For a repository that does not exist the listing of
  the root is rejected with 404, whose mapping would be the not-found message; the job
  reports the three final progress events, saves an empty archive \<open>r.zip\<close> and returns
  \<open>true\<close>.
\<close>

theorem not_found_is_never_thrown:
  "getListing (failing_api not_found) (contentsUrl ''o'' ''r'' '''' ''main'') = Inl not_found
   \<and> is404 not_found
   \<and> handleError not_found
       = Error ''Repository, folder, or file not found. Please check the URL and try again.''
   \<and> downloadRepository (Suc 0) (failing_api not_found) root_job
       = Some \<lparr> outcome = Inr True,
                final = \<lparr> st_zip = [], st_progress = final_events \<rparr>,
                saved = Some (''r.zip'', []) \<rparr>"
  by code_simp

subsection \<open>A failing file fetch\<close>



subsection \<open>Files without a download URL\<close>



subsection \<open>A failing directory listing\<close>



subsection \<open>A file job whose metadata request fails\<close>



end
